theory Spec2Isabelle
  imports Main "HOL-Library.Product_Lexorder"
begin

section \<open>Python strings and the character database\<close>

text \<open>
  A Python \<open>str\<close> is a sequence of Unicode code points, so a string is a list of
  natural numbers here; \<open>str\<close> turns an ASCII literal into one.
\<close>

type_synonym pystr = "nat list"

definition str :: "string \<Rightarrow> pystr" where
  "str s = map of_char s"

definition ch :: "char \<Rightarrow> nat" where
  "ch c = of_char c"

definition UNKNOWN :: pystr where
  "UNKNOWN = str ''Unknown''"

text \<open>
  The source never classifies a character itself: \<open>str.strip\<close>, \<open>str.lower\<close>,
  \<open>str.istitle\<close>, \<open>str.isupper\<close> and the classes \<open>\s\<close>, \<open>\d\<close>, \<open>\w\<close>, \<open>\b\<close> and
  the flag \<open>re.I\<close> of the \<open>re\<close> module all read the interpreter's Unicode character
  database, which is not part of the repository. The database is therefore a parameter
  of every function below:
  \<^item> \<open>isspace\<close>: the white space of \<open>str.strip\<close>, \<open>str.isspace\<close> and \<open>\s\<close>;
  \<^item> \<open>decimal\<close>: the decimal digit value of a character, if it has one (\<open>\d\<close> matches
    exactly the characters that have one, and \<open>int\<close> reads a digit string through it);
  \<^item> \<open>isalnum\<close>: the alphanumeric characters (\<open>\w\<close> is these and the underscore);
  \<^item> \<open>isupper\<close>, \<open>islower\<close>, \<open>istitle\<close>: the case of a character, as \<open>str.isupper\<close>
    and \<open>str.istitle\<close> read it;
  \<^item> \<open>tolower\<close> and \<open>casefix\<close>: the simple lower-case mapping and the table of extra
    equivalents that \<open>re.I\<close> matches a cased literal through;
  \<^item> \<open>lower\<close>: \<open>str.lower\<close> (the full mapping, which may change the length).
\<close>

record ucd =
  isspace :: "nat \<Rightarrow> bool"
  decimal :: "nat \<Rightarrow> nat option"
  isalnum :: "nat \<Rightarrow> bool"
  isupper :: "nat \<Rightarrow> bool"
  islower :: "nat \<Rightarrow> bool"
  istitle :: "nat \<Rightarrow> bool"
  tolower :: "nat \<Rightarrow> nat"
  casefix :: "nat \<Rightarrow> nat list"
  lower :: "pystr \<Rightarrow> pystr"

text \<open>
  The database restricted to ASCII, where it is fixed for every version of the
  interpreter: white space is TAB..CR, FS..US and the space, the digits are 0..9, the
  letters are A..Z and a..z. A code point from 128 on is left unclassified. The
  examples below, all ASCII, are evaluated with it.
\<close>

definition ascii_isspace :: "nat \<Rightarrow> bool" where
  "ascii_isspace c = ((9 \<le> c \<and> c \<le> 13) \<or> (28 \<le> c \<and> c \<le> 32))"

definition ascii_decimal :: "nat \<Rightarrow> nat option" where
  "ascii_decimal c = (if 48 \<le> c \<and> c \<le> 57 then Some (c - 48) else None)"

definition ascii_isupper :: "nat \<Rightarrow> bool" where
  "ascii_isupper c = (65 \<le> c \<and> c \<le> 90)"

definition ascii_islower :: "nat \<Rightarrow> bool" where
  "ascii_islower c = (97 \<le> c \<and> c \<le> 122)"

definition ascii_isalnum :: "nat \<Rightarrow> bool" where
  "ascii_isalnum c = (ascii_isupper c \<or> ascii_islower c \<or> (48 \<le> c \<and> c \<le> 57))"

definition ascii_tolower :: "nat \<Rightarrow> nat" where
  "ascii_tolower c = (if ascii_isupper c then c + 32 else c)"

definition ascii_ucd :: ucd where
  "ascii_ucd = \<lparr> isspace = ascii_isspace, decimal = ascii_decimal, isalnum = ascii_isalnum,
     isupper = ascii_isupper, islower = ascii_islower, istitle = (\<lambda>c. False),
     tolower = ascii_tolower, casefix = (\<lambda>c. []), lower = map ascii_tolower \<rparr>"

subsection \<open>String methods\<close>

definition slice :: "nat \<Rightarrow> nat \<Rightarrow> 'a list \<Rightarrow> 'a list" where
  "slice a b s = take (b - a) (drop a s)"

definition strip :: "ucd \<Rightarrow> pystr \<Rightarrow> pystr" where
  "strip db s = rev (dropWhile (isspace db) (rev (dropWhile (isspace db) s)))"

text \<open>\<open>sep.join(parts)\<close>.\<close>

fun join :: "pystr \<Rightarrow> pystr list \<Rightarrow> pystr" where
  "join sep [] = []"
| "join sep [x] = x"
| "join sep (x # y # ys) = x @ sep @ join sep (y # ys)"

text \<open>
  \<open>str.splitlines\<close>: a line ends at LF, VT, FF, CR, CR LF, FS, GS, RS, NEL, LS or PS; the
  line breaks are dropped and a break at the very end opens no further line.
\<close>

definition is_linebreak :: "nat \<Rightarrow> bool" where
  "is_linebreak c = (c \<in> {10, 11, 12, 13, 28, 29, 30, 133, 8232, 8233})"

fun splitlines_from :: "pystr \<Rightarrow> pystr \<Rightarrow> pystr list" where
  "splitlines_from cur [] = (if cur = [] then [] else [cur])"
| "splitlines_from cur [c] = (if is_linebreak c then [cur] else [cur @ [c]])"
| "splitlines_from cur (c # d # cs) =
     (if c = 13 \<and> d = 10 then cur # splitlines_from [] cs
      else if is_linebreak c then cur # splitlines_from [] (d # cs)
      else splitlines_from (cur @ [c]) (d # cs))"

definition splitlines :: "pystr \<Rightarrow> pystr list" where
  "splitlines s = splitlines_from [] s"

text \<open>
  \<open>str.istitle\<close>: upper-case and title-case characters may only follow uncased ones,
  lower-case characters only cased ones, and there is at least one cased character.
  The flag carried along is "the previous character is cased".
\<close>

fun istitle_from :: "ucd \<Rightarrow> bool \<Rightarrow> bool \<Rightarrow> pystr \<Rightarrow> bool" where
  "istitle_from db prev cased [] = cased"
| "istitle_from db prev cased (c # cs) =
     (if isupper db c \<or> istitle db c then
        (if prev then False else istitle_from db True True cs)
      else if islower db c then
        (if \<not> prev then False else istitle_from db True True cs)
      else istitle_from db False cased cs)"

definition str_istitle :: "ucd \<Rightarrow> pystr \<Rightarrow> bool" where
  "str_istitle db s = istitle_from db False False s"

text \<open>
  \<open>str.isupper\<close>: no lower-case or title-case character and at least one upper-case
  one; a string of one character is upper-case when that character is.
\<close>

fun isupper_from :: "ucd \<Rightarrow> bool \<Rightarrow> pystr \<Rightarrow> bool" where
  "isupper_from db cased [] = cased"
| "isupper_from db cased (c # cs) =
     (if islower db c \<or> istitle db c then False
      else isupper_from db (cased \<or> isupper db c) cs)"

definition str_isupper :: "ucd \<Rightarrow> pystr \<Rightarrow> bool" where
  "str_isupper db s = (case s of [c] \<Rightarrow> isupper db c | _ \<Rightarrow> isupper_from db False s)"

text \<open>\<open>str(n)\<close> for an integer: its decimal digits, after a minus sign when negative.\<close>

fun digits_of :: "nat \<Rightarrow> pystr" where
  "digits_of n = (if n < 10 then [48 + n] else digits_of (n div 10) @ [48 + n mod 10])"

definition str_of_int :: "int \<Rightarrow> pystr" where
  "str_of_int n = (if n < 0 then 45 # digits_of (nat (- n)) else digits_of (nat n))"

section \<open>Regular expressions\<close>

text \<open>
  The patterns of the source use a small part of the \<open>re\<close> language: single characters
  and character sets, greedy repetition of a single character or set, sequence,
  alternation, an optional part, groups, the anchors \<open>^\<close> and \<open>$\<close>, the word boundary
  \<open>\b\<close> and negative look-around for one character. A pattern is a value of \<open>regex\<close>
  as the \<open>re\<close> compiler reads it: under \<open>re.I\<close> a letter becomes \<open>LitI\<close> of its lower
  case and every other character stays an exact \<open>Lit\<close>; under \<open>re.S\<close> the dot is
  \<open>DotAll\<close>.
\<close>

datatype citem = Ch nat | Rng nat nat | ClsSpace | ClsDigit | ClsWord

datatype atom = Lit nat | LitI nat | Dot | DotAll | In "citem list" | NotIn "citem list"

datatype regex =
    Eps
  | Atom atom
  | Seq regex regex
  | Alt regex regex
  | Opt regex
  | Rep atom nat "nat option"
  | Group nat regex
  | WordB
  | Bos
  | Eos
  | NotBehind atom
  | NotAhead atom

definition isword :: "ucd \<Rightarrow> nat \<Rightarrow> bool" where
  "isword db c = (isalnum db c \<or> c = 95)"

fun citem_ok :: "ucd \<Rightarrow> citem \<Rightarrow> nat \<Rightarrow> bool" where
  "citem_ok db (Ch c) x = (x = c)"
| "citem_ok db (Rng a b) x = (a \<le> x \<and> x \<le> b)"
| "citem_ok db ClsSpace x = isspace db x"
| "citem_ok db ClsDigit x = (decimal db x \<noteq> None)"
| "citem_ok db ClsWord x = isword db x"

fun atom_ok :: "ucd \<Rightarrow> atom \<Rightarrow> nat \<Rightarrow> bool" where
  "atom_ok db (Lit c) x = (x = c)"
| "atom_ok db (LitI c) x = (tolower db x \<in> set (c # casefix db c))"
| "atom_ok db Dot x = (x \<noteq> 10)"
| "atom_ok db DotAll x = True"
| "atom_ok db (In items) x = list_ex (\<lambda>it. citem_ok db it x) items"
| "atom_ok db (NotIn items) x = (\<not> list_ex (\<lambda>it. citem_ok db it x) items)"

text \<open>
  \<open>\b\<close>: exactly one of the characters before and after the position is a word
  character. \<open>$\<close> (without \<open>re.M\<close>): the end of the string, or just before a line feed
  that ends it.
\<close>

definition word_before :: "ucd \<Rightarrow> pystr \<Rightarrow> nat \<Rightarrow> bool" where
  "word_before db s i = (0 < i \<and> i \<le> length s \<and> isword db (s ! (i - 1)))"

definition word_after :: "ucd \<Rightarrow> pystr \<Rightarrow> nat \<Rightarrow> bool" where
  "word_after db s i = (i < length s \<and> isword db (s ! i))"

definition at_boundary :: "ucd \<Rightarrow> pystr \<Rightarrow> nat \<Rightarrow> bool" where
  "at_boundary db s i = (word_before db s i \<noteq> word_after db s i)"

definition at_end :: "pystr \<Rightarrow> nat \<Rightarrow> bool" where
  "at_end s i = (i = length s \<or> (Suc i = length s \<and> s ! i = 10))"

text \<open>
  A greedy repetition \<open>a{lo,hi}\<close> of one atom from position \<open>i\<close>: the engine takes as
  many characters as it can and gives them back one at a time, so the positions where
  the repetition may end are listed from the longest run to the shortest.
\<close>

definition run_length :: "ucd \<Rightarrow> atom \<Rightarrow> pystr \<Rightarrow> nat \<Rightarrow> nat" where
  "run_length db a s i = length (takeWhile (atom_ok db a) (drop i s))"

definition rep_ends :: "ucd \<Rightarrow> atom \<Rightarrow> nat \<Rightarrow> nat option \<Rightarrow> pystr \<Rightarrow> nat \<Rightarrow> nat list" where
  "rep_ends db a lo hi s i =
     (let n = run_length db a s i;
          m = (case hi of None \<Rightarrow> n | Some h \<Rightarrow> min h n)
      in if m < lo then [] else map (\<lambda>k. i + k) (rev [lo..<Suc m]))"

text \<open>
  The matcher is the backtracking search of the engine written as a list of successes:
  \<open>rmatch db r s (i, g)\<close> lists, in the order the engine tries them, the states in
  which \<open>r\<close> can stop when it starts at position \<open>i\<close> of \<open>s\<close> with the groups \<open>g\<close>
  recorded so far. A state is the position reached and the span of each group.
\<close>

type_synonym groups = "nat \<Rightarrow> (nat \<times> nat) option"

type_synonym mstate = "nat \<times> groups"

fun rmatch :: "ucd \<Rightarrow> regex \<Rightarrow> pystr \<Rightarrow> mstate \<Rightarrow> mstate list" where
  "rmatch db Eps s st = [st]"
| "rmatch db (Atom a) s (i, g) =
     (if i < length s \<and> atom_ok db a (s ! i) then [(Suc i, g)] else [])"
| "rmatch db (Seq r1 r2) s st = concat (map (rmatch db r2 s) (rmatch db r1 s st))"
| "rmatch db (Alt r1 r2) s st = rmatch db r1 s st @ rmatch db r2 s st"
| "rmatch db (Opt r) s st = rmatch db r s st @ [st]"
| "rmatch db (Rep a lo hi) s (i, g) = map (\<lambda>j. (j, g)) (rep_ends db a lo hi s i)"
| "rmatch db (Group n r) s (i, g) =
     map (\<lambda>(j, g'). (j, g'(n \<mapsto> (i, j)))) (rmatch db r s (i, g))"
| "rmatch db WordB s (i, g) = (if at_boundary db s i then [(i, g)] else [])"
| "rmatch db Bos s (i, g) = (if i = 0 then [(i, g)] else [])"
| "rmatch db Eos s (i, g) = (if at_end s i then [(i, g)] else [])"
| "rmatch db (NotBehind a) s (i, g) =
     (if 0 < i \<and> i \<le> length s \<and> atom_ok db a (s ! (i - 1)) then [] else [(i, g)])"
| "rmatch db (NotAhead a) s (i, g) =
     (if i < length s \<and> atom_ok db a (s ! i) then [] else [(i, g)])"

text \<open>
  A match object: where the match starts, where it ends and its groups.
  \<open>re.match\<close> tries position 0 only; \<open>re.search\<close> tries every position from the left
  and keeps the first success of the first position that has one.
\<close>

datatype rematch = Match (m_start: nat) (m_end: nat) (m_groups: groups)

definition match_at :: "ucd \<Rightarrow> regex \<Rightarrow> pystr \<Rightarrow> nat \<Rightarrow> rematch option" where
  "match_at db r s i =
     (case rmatch db r s (i, Map.empty) of [] \<Rightarrow> None | (j, g) # _ \<Rightarrow> Some (Match i j g))"

fun first_match :: "ucd \<Rightarrow> regex \<Rightarrow> pystr \<Rightarrow> nat list \<Rightarrow> rematch option" where
  "first_match db r s [] = None"
| "first_match db r s (i # is) =
     (case match_at db r s i of None \<Rightarrow> first_match db r s is | Some m \<Rightarrow> Some m)"

definition re_match :: "ucd \<Rightarrow> regex \<Rightarrow> pystr \<Rightarrow> rematch option" where
  "re_match db r s = match_at db r s 0"

definition re_search :: "ucd \<Rightarrow> regex \<Rightarrow> pystr \<Rightarrow> rematch option" where
  "re_search db r s = first_match db r s [0..<Suc (length s)]"

text \<open>
  \<open>m.group(0)\<close> and \<open>m.group(n)\<close>. In every pattern of this program each group
  encloses a part that every match goes through, so a group of a match is never unset.
\<close>

definition group0 :: "pystr \<Rightarrow> rematch \<Rightarrow> pystr" where
  "group0 s m = slice (m_start m) (m_end m) s"

definition group :: "pystr \<Rightarrow> rematch \<Rightarrow> nat \<Rightarrow> pystr" where
  "group s m n = (case m_groups m n of None \<Rightarrow> [] | Some (a, b) \<Rightarrow> slice a b s)"

text \<open>
  \<open>re.sub(pattern, repl, s)\<close> with a constant replacement. The scan visits the
  positions from the left; \<open>resume\<close> is the end of the last match, before which no
  new match may start. Where the pattern matches, the replacement is written and the
  scan resumes after the match; elsewhere the character is copied. (An empty match
  writes the replacement and still copies the character.)
\<close>

fun sub_scan :: "ucd \<Rightarrow> regex \<Rightarrow> pystr \<Rightarrow> pystr \<Rightarrow> nat \<Rightarrow> nat list \<Rightarrow> pystr" where
  "sub_scan db r repl s resume [] = []"
| "sub_scan db r repl s resume (i # is) =
     (if i < resume then sub_scan db r repl s resume is
      else case match_at db r s i of
        None \<Rightarrow> (if i < length s then [s ! i] else []) @ sub_scan db r repl s resume is
      | Some m \<Rightarrow>
          if i < m_end m then repl @ sub_scan db r repl s (m_end m) is
          else repl @ (if i < length s then [s ! i] else []) @ sub_scan db r repl s resume is)"

definition re_sub :: "ucd \<Rightarrow> regex \<Rightarrow> pystr \<Rightarrow> pystr \<Rightarrow> pystr" where
  "re_sub db r repl s = sub_scan db r repl s 0 [0..<Suc (length s)]"

text \<open>\<open>re.split(pattern, s)[0]\<close>: the part of \<open>s\<close> before the first match, or all of it.\<close>

definition re_split_first :: "ucd \<Rightarrow> regex \<Rightarrow> pystr \<Rightarrow> pystr" where
  "re_split_first db r s = (case re_search db r s of None \<Rightarrow> s | Some m \<Rightarrow> take (m_start m) s)"

text \<open>Writing patterns: a sequence, an alternation, a literal word, with or without \<open>re.I\<close>.\<close>

fun seq :: "regex list \<Rightarrow> regex" where
  "seq [] = Eps"
| "seq [r] = r"
| "seq (r # rs) = Seq r (seq rs)"

fun alt :: "regex list \<Rightarrow> regex" where
  "alt [] = Eps"
| "alt [r] = r"
| "alt (r # rs) = Alt r (alt rs)"

definition lit :: "string \<Rightarrow> regex" where
  "lit w = seq (map (\<lambda>c. Atom (Lit (of_char c))) w)"

definition is_ascii_letter :: "nat \<Rightarrow> bool" where
  "is_ascii_letter c = ((65 \<le> c \<and> c \<le> 90) \<or> (97 \<le> c \<and> c \<le> 122))"

definition lit_i_char :: "nat \<Rightarrow> atom" where
  "lit_i_char c = (if is_ascii_letter c then LitI (if c \<le> 90 then c + 32 else c) else Lit c)"

definition lit_i :: "string \<Rightarrow> regex" where
  "lit_i w = seq (map (\<lambda>c. Atom (lit_i_char (of_char c))) w)"

definition chars :: "string \<Rightarrow> citem list" where
  "chars w = map (\<lambda>c. Ch (of_char c)) w"

section \<open>NameNormalizer\<close>

text \<open>
  \<^verbatim>\<open>s = re.sub(r"[,;]\s*$", "", (s or "").strip())\<close>
  \<^verbatim>\<open>s = re.sub(r"\b(Dr\.?|Prof\.?|Professor|Ph\.?D\.?|M\.?D\.?)\b\.?", "", s, flags=re.I)\<close>
  \<^verbatim>\<open>return re.sub(r"\s{2,}", " ", s).strip() or UNKNOWN\<close>
\<close>

definition trailing_sep_pat :: regex where
  "trailing_sep_pat = seq [Atom (In (chars '',;'')), Rep (In [ClsSpace]) 0 None, Eos]"

definition opt_dot :: regex where
  "opt_dot = Opt (Atom (Lit (ch CHR ''.'')))"

definition honorific_pat :: regex where
  "honorific_pat = seq [WordB,
     Group 1 (alt [seq [lit_i ''Dr'', opt_dot],
                   seq [lit_i ''Prof'', opt_dot],
                   lit_i ''Professor'',
                   seq [lit_i ''Ph'', opt_dot, lit_i ''D'', opt_dot],
                   seq [lit_i ''M'', opt_dot, lit_i ''D'', opt_dot]]),
     WordB, opt_dot]"

definition ws_run_pat :: regex where
  "ws_run_pat = Rep (In [ClsSpace]) 2 None"

definition strip_trailing_sep :: "ucd \<Rightarrow> pystr \<Rightarrow> pystr" where
  "strip_trailing_sep db s = re_sub db trailing_sep_pat [] s"

definition remove_honorifics :: "ucd \<Rightarrow> pystr \<Rightarrow> pystr" where
  "remove_honorifics db s = re_sub db honorific_pat [] s"

definition collapse_ws :: "ucd \<Rightarrow> pystr \<Rightarrow> pystr" where
  "collapse_ws db s = re_sub db ws_run_pat (str '' '') s"

definition clean_name :: "ucd \<Rightarrow> pystr \<Rightarrow> pystr" where
  "clean_name db s =
     (let s1 = strip_trailing_sep db (strip db s);
          s2 = remove_honorifics db s1;
          s3 = strip db (collapse_ws db s2)
      in if s3 = [] then UNKNOWN else s3)"

section \<open>TitleGuesser\<close>

text \<open>
  \<^verbatim>\<open>re.search(r"\b(by|edited|editor|copyright|published|publisher|isbn|issn)\b", t, re.I)\<close>
  and \<^verbatim>\<open>re.match(r"^[\w :;,'&\-\(\)\.\!\?]+$", t)\<close>.
\<close>

definition banned_word_pat :: regex where
  "banned_word_pat = seq [WordB,
     Group 1 (alt [lit_i ''by'', lit_i ''edited'', lit_i ''editor'', lit_i ''copyright'',
                   lit_i ''published'', lit_i ''publisher'', lit_i ''isbn'', lit_i ''issn'']),
     WordB]"

definition title_chars_pat :: regex where
  "title_chars_pat =
     seq [Bos, Rep (In (ClsWord # chars '' :;,'' @ [Ch 39] @ chars ''&-().!?'')) 1 None, Eos]"

definition title_score :: "ucd \<Rightarrow> pystr \<Rightarrow> int" where
  "title_score db t =
     (let score = (if str_istitle db t then 2 else 0)
                  + (if str_isupper db t \<and> length t \<le> 80 then 1 else 0);
          score = score + (if 10 \<le> length t \<and> length t \<le> 120 then 1 else 0);
          score = score + (if re_match db title_chars_pat t \<noteq> None then 1 else 0)
      in if length t > 140 then score - 1 else score)"

text \<open>The loop over the lines: the list \<open>cand\<close> of the scored lines that are kept.\<close>

fun title_cands :: "ucd \<Rightarrow> pystr list \<Rightarrow> (int \<times> pystr) list" where
  "title_cands db [] = []"
| "title_cands db (ln # lns) =
     (let t = strip db ln in
      if t = [] \<or> length t < 4 then title_cands db lns
      else if re_search db banned_word_pat t \<noteq> None then title_cands db lns
      else if title_score db t \<ge> 2 then (title_score db t, t) # title_cands db lns
      else title_cands db lns)"

text \<open>
  \<open>sorted\<close> is stable and so is \<open>sort_key\<close>: of two candidates with the same score
  and length, the one from the earlier line comes first.
\<close>

definition guess_title :: "ucd \<Rightarrow> pystr list \<Rightarrow> pystr" where
  "guess_title db lines =
     (case sort_key (\<lambda>x. (- fst x, length (snd x))) (title_cands db (take 25 lines)) of
        [] \<Rightarrow> UNKNOWN
      | x # _ \<Rightarrow> snd x)"

section \<open>PersonExtractor\<close>

text \<open>
  \<^verbatim>\<open>re.search(r"\b(?:By|Written by|Author(?:s)?:)\s*([^\n,]+)", text, flags=re.I)\<close>
  \<^verbatim>\<open>re.search(r"\b(?:Edited by|Editor(?:s)?:)\s*([^\n,]+)", text, flags=re.I)\<close>
\<close>

definition name_tail :: regex where
  "name_tail = Seq (Rep (In [ClsSpace]) 0 None) (Group 1 (Rep (NotIn [Ch 10, Ch 44]) 1 None))"

definition author_labels :: regex where
  "author_labels = alt [lit_i ''By'', lit_i ''Written by'',
                        seq [lit_i ''Author'', Opt (lit_i ''s''), lit '':'']]"

definition author_pat :: regex where
  "author_pat = seq [WordB, author_labels, name_tail]"

definition editor_labels :: regex where
  "editor_labels = alt [lit_i ''Edited by'', seq [lit_i ''Editor'', Opt (lit_i ''s''), lit '':'']]"

definition editor_pat :: regex where
  "editor_pat = seq [WordB, editor_labels, name_tail]"

definition unknown_pat :: regex where
  "unknown_pat = lit_i ''unknown''"

definition find_people :: "ucd \<Rightarrow> pystr \<Rightarrow> pystr option \<Rightarrow> pystr \<times> pystr" where
  "find_people db text meta_author =
     (let author =
            (case re_search db author_pat text of
               Some m \<Rightarrow> clean_name db (group text m 1)
             | None \<Rightarrow>
                 (case meta_author of
                    None \<Rightarrow> UNKNOWN
                  | Some a \<Rightarrow>
                      if a \<noteq> [] \<and> re_search db unknown_pat a = None then clean_name db a
                      else UNKNOWN));
          editor =
            (case re_search db editor_pat text of
               Some m \<Rightarrow> clean_name db (group text m 1)
             | None \<Rightarrow> UNKNOWN)
      in if author \<noteq> UNKNOWN \<and> lower db editor = lower db author then (author, UNKNOWN)
         else (author, editor))"

section \<open>YearExtractor\<close>

text \<open>
  \<^verbatim>\<open>year_pat = r"(?<!\d)(1[5-9]\d{2}|20[0-2]\d|203[0-5])(?!\d)"\<close>
  \<^verbatim>\<open>re.search(term + r".{0,60}" + year_pat, text, flags=re.I | re.S)\<close>
  for each marker in turn. The copyright sign is the code point 169.
\<close>

definition digit :: atom where
  "digit = In [ClsDigit]"

definition year_pat :: regex where
  "year_pat = seq [NotBehind digit,
     Group 1 (alt [seq [lit ''1'', Atom (In [Rng (ch CHR ''5'') (ch CHR ''9'')]), Rep digit 2 (Some 2)],
                   seq [lit ''20'', Atom (In [Rng (ch CHR ''0'') (ch CHR ''2'')]), Atom digit],
                   seq [lit ''203'', Atom (In [Rng (ch CHR ''0'') (ch CHR ''5'')])]]),
     NotAhead digit]"

definition year_markers :: "regex list" where
  "year_markers = [Atom (Lit 169), lit_i ''Copyright'', lit_i ''First published'',
                   lit_i ''Published'', lit_i ''Reprinted'']"

definition marker_pat :: "regex \<Rightarrow> regex" where
  "marker_pat marker = seq [marker, Rep DotAll 0 (Some 60), year_pat]"

text \<open>The loop over the markers: the year of the first marker that has one nearby.\<close>

fun marker_year :: "ucd \<Rightarrow> pystr \<Rightarrow> regex list \<Rightarrow> pystr option" where
  "marker_year db text [] = None"
| "marker_year db text (marker # rest) =
     (case re_search db (marker_pat marker) text of
        None \<Rightarrow> marker_year db text rest
      | Some m \<Rightarrow>
          (case re_search db year_pat (group0 text m) of
             None \<Rightarrow> marker_year db text rest
           | Some y \<Rightarrow> Some (group0 (group0 text m) y)))"

definition find_year :: "ucd \<Rightarrow> pystr \<Rightarrow> pystr" where
  "find_year db text =
     (case marker_year db text year_markers of
        Some y \<Rightarrow> y
      | None \<Rightarrow>
          (case re_search db year_pat text of
             Some m \<Rightarrow> group text m 1
           | None \<Rightarrow> UNKNOWN))"

section \<open>PublisherExtractor\<close>

text \<open>
  \<^verbatim>\<open>re.search(r"\b(Published by|Publisher|Imprint|Printed by)\s*[:\-]\s*(.+)", ln, flags=re.I)\<close>
  \<^verbatim>\<open>re.split(r"[;|\<bullet>]|Tel:|Phone:|Fax:|Email:|www\.", m.group(2).strip())[0].strip()\<close>
  \<^verbatim>\<open>re.search(r"\b(Press|Publications|Publishers|University|House|Books)\b", ln, flags=re.I)\<close>
  The bullet is the code point 8226.
\<close>

definition publisher_labels :: regex where
  "publisher_labels = alt [lit_i ''Published by'', lit_i ''Publisher'', lit_i ''Imprint'',
                           lit_i ''Printed by'']"

definition publisher_pat :: regex where
  "publisher_pat = seq [WordB, Group 1 publisher_labels,
     Rep (In [ClsSpace]) 0 None, Atom (In (chars '':-'')), Rep (In [ClsSpace]) 0 None,
     Group 2 (Rep Dot 1 None)]"

definition contact_sep_pat :: regex where
  "contact_sep_pat = alt [Atom (In (chars '';|'' @ [Ch 8226])), lit ''Tel:'', lit ''Phone:'',
                          lit ''Fax:'', lit ''Email:'', lit ''www.'']"

definition imprint_word_pat :: regex where
  "imprint_word_pat = seq [WordB,
     Group 1 (alt [lit_i ''Press'', lit_i ''Publications'', lit_i ''Publishers'',
                   lit_i ''University'', lit_i ''House'', lit_i ''Books'']),
     WordB]"

definition publisher_cand :: "ucd \<Rightarrow> pystr \<Rightarrow> rematch \<Rightarrow> pystr" where
  "publisher_cand db ln m =
     collapse_ws db (strip db (re_split_first db contact_sep_pat (strip db (group ln m 2))))"

fun labelled_publisher :: "ucd \<Rightarrow> pystr list \<Rightarrow> pystr option" where
  "labelled_publisher db [] = None"
| "labelled_publisher db (ln # lns) =
     (case re_search db publisher_pat ln of
        None \<Rightarrow> labelled_publisher db lns
      | Some m \<Rightarrow>
          (let cand = publisher_cand db ln m in
           if 2 \<le> length cand \<and> length cand \<le> 120 then Some cand
           else labelled_publisher db lns))"

fun imprint_line :: "ucd \<Rightarrow> pystr list \<Rightarrow> pystr option" where
  "imprint_line db [] = None"
| "imprint_line db (ln # lns) =
     (if re_search db imprint_word_pat ln \<noteq> None
         \<and> 2 \<le> length (strip db ln) \<and> length (strip db ln) \<le> 120
      then Some (strip db ln)
      else imprint_line db lns)"

definition find_publisher :: "ucd \<Rightarrow> pystr \<Rightarrow> pystr" where
  "find_publisher db text =
     (case labelled_publisher db (splitlines text) of
        Some cand \<Rightarrow> cand
      | None \<Rightarrow>
          (case imprint_line db (take 80 (splitlines text)) of
             Some s \<Rightarrow> s
           | None \<Rightarrow> UNKNOWN))"

section \<open>LanguageDetector\<close>

datatype script = Devanagari | Bengali | Gurmukhi | Gujarati | Oriya | Tamil | Telugu
  | Kannada | Malayalam | Latin | Arabic | Cyrillic

text \<open>The keys of \<open>counts\<close>, in the order the dictionary is built with.\<close>

definition scripts :: "script list" where
  "scripts = [Devanagari, Bengali, Gurmukhi, Gujarati, Oriya, Tamil, Telugu, Kannada,
              Malayalam, Latin, Arabic, Cyrillic]"

text \<open>The chain of range tests on the code point; a character outside every range is not counted.\<close>

definition script_of :: "nat \<Rightarrow> script option" where
  "script_of cp =
     (if 0x0900 \<le> cp \<and> cp \<le> 0x097F then Some Devanagari
      else if 0x0980 \<le> cp \<and> cp \<le> 0x09FF then Some Bengali
      else if 0x0A00 \<le> cp \<and> cp \<le> 0x0A7F then Some Gurmukhi
      else if 0x0A80 \<le> cp \<and> cp \<le> 0x0AFF then Some Gujarati
      else if 0x0B00 \<le> cp \<and> cp \<le> 0x0B7F then Some Oriya
      else if 0x0B80 \<le> cp \<and> cp \<le> 0x0BFF then Some Tamil
      else if 0x0C00 \<le> cp \<and> cp \<le> 0x0C7F then Some Telugu
      else if 0x0C80 \<le> cp \<and> cp \<le> 0x0CFF then Some Kannada
      else if 0x0D00 \<le> cp \<and> cp \<le> 0x0D7F then Some Malayalam
      else if 0x0400 \<le> cp \<and> cp \<le> 0x04FF then Some Cyrillic
      else if 0x0600 \<le> cp \<and> cp \<le> 0x06FF then Some Arabic
      else if 0x0000 \<le> cp \<and> cp \<le> 0x024F then Some Latin
      else None)"

type_synonym counts = "(script \<times> nat) list"

definition bump :: "script \<Rightarrow> counts \<Rightarrow> counts" where
  "bump k counts = map (\<lambda>(k', n). if k' = k then (k', n + 1) else (k', n)) counts"

fun count_scripts :: "counts \<Rightarrow> pystr \<Rightarrow> counts" where
  "count_scripts counts [] = counts"
| "count_scripts counts (c # cs) =
     (case script_of c of
        None \<Rightarrow> count_scripts counts cs
      | Some k \<Rightarrow> count_scripts (bump k counts) cs)"

text \<open>
  \<open>max(items, key=...)\<close> keeps the first of the items with the greatest key: a later
  item replaces the best one so far only when its key is strictly greater.
\<close>

fun max_from :: "('a \<Rightarrow> nat) \<Rightarrow> 'a \<Rightarrow> 'a list \<Rightarrow> 'a" where
  "max_from key best [] = best"
| "max_from key best (x # xs) = max_from key (if key best < key x then x else best) xs"

definition language_of :: "script \<Rightarrow> pystr" where
  "language_of k = (case k of
       Devanagari \<Rightarrow> str ''Hindi'' | Bengali \<Rightarrow> str ''Bengali'' | Gurmukhi \<Rightarrow> str ''Punjabi''
     | Gujarati \<Rightarrow> str ''Gujarati'' | Oriya \<Rightarrow> str ''Odia'' | Tamil \<Rightarrow> str ''Tamil''
     | Telugu \<Rightarrow> str ''Telugu'' | Kannada \<Rightarrow> str ''Kannada'' | Malayalam \<Rightarrow> str ''Malayalam''
     | Arabic \<Rightarrow> str ''Arabic'' | Cyrillic \<Rightarrow> str ''Russian'' | Latin \<Rightarrow> str ''English'')"

definition script_counts :: "pystr \<Rightarrow> counts" where
  "script_counts sample = count_scripts (map (\<lambda>k. (k, 0)) scripts) (take 5000 sample)"

text \<open>
  \<open>counts\<close> always has its twelve keys, so \<open>max\<close> never sees an empty sequence; the
  first branch of the case below is never taken.
\<close>

definition guess_language :: "ucd \<Rightarrow> pystr \<Rightarrow> pystr" where
  "guess_language db sample =
     (if sample = [] \<or> length (strip db sample) < 40 then UNKNOWN
      else case script_counts sample of
        [] \<Rightarrow> UNKNOWN
      | kv # kvs \<Rightarrow>
          (let (script, n) = max_from snd kv kvs in
           if n < 20 then UNKNOWN else language_of script))"

section \<open>InferenceEngine\<close>

text \<open>
  What the PDF and OCR libraries hand to \<open>parse_pdf\<close>. Opening a file gives a document
  or raises; a document has its metadata dictionary (or none; reading it may raise),
  the text of each page (extracting a page may raise) and its page count. The OCR of
  the first pages gives one text per page image or raises.
\<close>

datatype exn = Exception string

type_synonym 'a dict = "(string \<times> 'a) list"

record document =
  metadata :: "exn + (pystr option) dict option"
  page_text :: "(exn + pystr) list"
  page_count :: int

record library =
  fitz_open :: "string \<Rightarrow> exn + document"
  OCR_AVAILABLE :: bool
  ocr_pages :: "string \<Rightarrow> nat \<Rightarrow> exn + pystr list"

text \<open>\<open>d.get(key)\<close>: the value, or \<open>None\<close> for a missing key.\<close>

definition dict_get :: "('a option) dict \<Rightarrow> string \<Rightarrow> 'a option" where
  "dict_get d k = (case map_of d k of None \<Rightarrow> None | Some v \<Rightarrow> v)"

text \<open>\<open>_front_text\<close>: the text of the first pages, a page that fails being left out.\<close>

fun page_texts :: "(exn + pystr) list \<Rightarrow> pystr list" where
  "page_texts [] = []"
| "page_texts (Inl e # ps) = page_texts ps"
| "page_texts (Inr t # ps) = t # page_texts ps"

definition front_text :: "ucd \<Rightarrow> document \<Rightarrow> nat \<Rightarrow> pystr" where
  "front_text db doc pages =
     strip db (join [10] (page_texts (take (min pages (length (page_text doc))) (page_text doc))))"

definition ocr_first_pages :: "library \<Rightarrow> string \<Rightarrow> nat \<Rightarrow> pystr" where
  "ocr_first_pages lib pdf pages =
     (if \<not> OCR_AVAILABLE lib then []
      else case ocr_pages lib pdf pages of Inl e \<Rightarrow> [] | Inr txt \<Rightarrow> join [10] txt)"

definition all_unknown :: "pystr dict" where
  "all_unknown =
     [(''Book Title'', UNKNOWN), (''Author'', UNKNOWN), (''Editor'', UNKNOWN),
      (''Year of Publishing'', UNKNOWN), (''Publisher'', UNKNOWN),
      (''Language'', UNKNOWN), (''Number of Pages'', UNKNOWN), (''Format'', str ''PDF'')]"

text \<open>\<open>x or UNKNOWN\<close> on a string.\<close>

definition or_unknown :: "pystr \<Rightarrow> pystr" where
  "or_unknown x = (if x = [] then UNKNOWN else x)"

text \<open>The body of the \<open>try\<close>: \<open>Inl\<close> is an exception that leaves it.\<close>

definition parse_body :: "ucd \<Rightarrow> library \<Rightarrow> string \<Rightarrow> bool \<Rightarrow> exn + pystr dict" where
  "parse_body db lib pdf_path use_ocr =
     (case fitz_open lib pdf_path of
        Inl e \<Rightarrow> Inl e
      | Inr doc \<Rightarrow>
          (case metadata doc of
             Inl e \<Rightarrow> Inl e
           | Inr md \<Rightarrow>
               (let meta = (case md of None \<Rightarrow> [] | Some d \<Rightarrow> d);
                    text0 = front_text db doc 8;
                    text = (if use_ocr \<and> (text0 = [] \<or> length text0 < 40)
                            then (let ocr = ocr_first_pages lib pdf_path 3
                                  in if length ocr > length text0 then ocr else text0)
                            else text0);
                    title0 = strip db (case dict_get meta ''title'' of None \<Rightarrow> [] | Some t \<Rightarrow> t);
                    title = (if title0 = [] \<or> lower db title0 \<in> {[], str ''untitled'', str ''unknown''}
                             then or_unknown (guess_title db (filter (\<lambda>ln. strip db ln \<noteq> []) (splitlines text)))
                             else title0);
                    (author, editor) = find_people db text (dict_get meta ''author'');
                    year = find_year db text;
                    publisher = find_publisher db text;
                    lang_text = (if length (page_text doc) \<le> 8 then text
                                 else front_text db doc (min 12 (length (page_text doc))));
                    language = guess_language db lang_text
                in Inr [(''Book Title'', or_unknown title), (''Author'', or_unknown author),
                        (''Editor'', or_unknown editor), (''Year of Publishing'', or_unknown year),
                        (''Publisher'', or_unknown publisher), (''Language'', or_unknown language),
                        (''Number of Pages'',
                           if page_count doc \<noteq> 0 then str_of_int (page_count doc) else UNKNOWN),
                        (''Format'', str ''PDF'')])))"

text \<open>\<open>parse_pdf\<close>: the \<open>except Exception\<close> turns every exception of the body into the record of unknowns.\<close>

definition parse_pdf :: "ucd \<Rightarrow> library \<Rightarrow> string \<Rightarrow> bool \<Rightarrow> pystr dict" where
  "parse_pdf db lib pdf_path use_ocr =
     (case parse_body db lib pdf_path use_ocr of Inl e \<Rightarrow> all_unknown | Inr rec \<Rightarrow> rec)"

section \<open>Notions used in the statements\<close>

text \<open>
  A record is populated when it has the eight fields in their order, no value is the
  empty string and the format is the constant.
\<close>

definition populated :: "pystr dict \<Rightarrow> bool" where
  "populated r = (map fst r =
     [''Book Title'', ''Author'', ''Editor'', ''Year of Publishing'', ''Publisher'',
      ''Language'', ''Number of Pages'', ''Format'']
   \<and> list_all (\<lambda>kv. snd kv \<noteq> []) r
   \<and> map_of r ''Format'' = Some (str ''PDF''))"




text \<open>
  The number of characters of a bucket among the first 5000 of a sample, and a sample
  in which the Latin and the Cyrillic bucket tie at 20 characters.
\<close>

definition script_count :: "script \<Rightarrow> pystr \<Rightarrow> nat" where
  "script_count k sample = length (filter (\<lambda>c. script_of c = Some k) (take 5000 sample))"


text \<open>
  \<open>int(s)\<close> on a string of decimal digits: the number they write, each digit read
  through the database; no number when the string is empty or has another character.
\<close>

fun digits_value :: "ucd \<Rightarrow> nat \<Rightarrow> pystr \<Rightarrow> nat option" where
  "digits_value db acc [] = Some acc"
| "digits_value db acc (c # cs) =
     (case decimal db c of None \<Rightarrow> None | Some d \<Rightarrow> digits_value db (10 * acc + d) cs)"

definition py_int :: "ucd \<Rightarrow> pystr \<Rightarrow> nat option" where
  "py_int db s = (if s = [] then None else digits_value db 0 s)"

text \<open>
  What every Unicode database says about digits: a decimal digit value is at most 9,
  and the ASCII digits have their usual values.
\<close>

definition ucd_digits :: "ucd \<Rightarrow> bool" where
  "ucd_digits db = ((\<forall>c v. decimal db c = Some v \<longrightarrow> v \<le> 9)
     \<and> (\<forall>c. 48 \<le> c \<and> c \<le> 57 \<longrightarrow> decimal db c = Some (c - 48)))"

text \<open>The three forms of a year token: 15dd to 19dd, 200d to 202d, 2030 to 2035.\<close>

definition year_token :: "ucd \<Rightarrow> pystr \<Rightarrow> bool" where
  "year_token db y = (\<exists>a b c d. y = [a, b, c, d] \<and>
     ((a = 49 \<and> 53 \<le> b \<and> b \<le> 57 \<and> decimal db c \<noteq> None \<and> decimal db d \<noteq> None)
      \<or> (a = 50 \<and> b = 48 \<and> 48 \<le> c \<and> c \<le> 50 \<and> decimal db d \<noteq> None)
      \<or> (a = 50 \<and> b = 48 \<and> c = 51 \<and> 48 \<le> d \<and> d \<le> 53)))"

text \<open>
  The text reads the word \<open>w\<close> at position \<open>i\<close>, its letters in either case: each
  character is accepted by the atom that \<open>lit_i\<close> makes of the character of \<open>w\<close>.
\<close>

fun word_at :: "ucd \<Rightarrow> atom list \<Rightarrow> pystr \<Rightarrow> nat \<Rightarrow> bool" where
  "word_at db [] s i = True"
| "word_at db (a # as) s i = (i < length s \<and> atom_ok db a (s ! i) \<and> word_at db as s (Suc i))"

definition reads_nocase :: "ucd \<Rightarrow> string \<Rightarrow> pystr \<Rightarrow> nat \<Rightarrow> bool" where
  "reads_nocase db w s i = word_at db (map (\<lambda>c. lit_i_char (of_char c)) w) s i"

text \<open>
  What every Unicode database says about words: the space is not a word character,
  and a character that matches an ASCII letter without regard to case is one.
\<close>

definition ucd_letters :: "ucd \<Rightarrow> bool" where
  "ucd_letters db = (\<not> isword db 32
     \<and> (\<forall>l c. 97 \<le> l \<and> l \<le> 122 \<and> atom_ok db (LitI l) c \<longrightarrow> isword db c))"

text \<open>
  What \<open>re.sub(r"\s{2,}", " ", s)\<close> computes, written as a recursion on the string: a
  run of two or more white space characters becomes one space.
\<close>

function collapse_list :: "ucd \<Rightarrow> pystr \<Rightarrow> pystr" where
  "collapse_list db [] = []"
| "collapse_list db [c] = [c]"
| "collapse_list db (c # d # cs) =
     (if isspace db c \<and> isspace db d then 32 # collapse_list db (dropWhile (isspace db) cs)
      else c # collapse_list db (d # cs))"
  by pat_completeness auto
termination
  by (relation "measure (\<lambda>(db, s). length s)")
     (auto simp: less_Suc_eq_le intro: le_SucI length_dropWhile_le)

text \<open>No two neighbours are white space; no white space at either end.\<close>

fun ws_pair_free :: "ucd \<Rightarrow> pystr \<Rightarrow> bool" where
  "ws_pair_free db [] = True"
| "ws_pair_free db [c] = True"
| "ws_pair_free db (c # d # cs) = (\<not> (isspace db c \<and> isspace db d) \<and> ws_pair_free db (d # cs))"

definition trimmed :: "ucd \<Rightarrow> pystr \<Rightarrow> bool" where
  "trimmed db s = (s = [] \<or> (\<not> isspace db (hd s) \<and> \<not> isspace db (last s)))"

text \<open>What every Unicode database says about white space: no ASCII letter is white space.\<close>

definition ucd_spaces :: "ucd \<Rightarrow> bool" where
  "ucd_spaces db = (\<forall>c. is_ascii_letter c \<longrightarrow> \<not> isspace db c)"

section \<open>Evaluating the model on concrete inputs\<close>

text \<open>
  The examples are computed by rewriting with the definitions. The weak congruence
  rules make the simplifier decide a test or a scrutinee before it enters a branch.
\<close>

lemma Let_weak_cong: "a = b \<Longrightarrow> Let a f = Let b f"
  by simp

lemmas eval_congs = if_weak_cong Let_weak_cong option.case_cong_weak list.case_cong_weak
  sum.case_cong_weak prod.case_cong_weak rematch.case_cong_weak

lemmas eval_defs = str_def ch_def UNKNOWN_def ascii_ucd_def ascii_isspace_def ascii_decimal_def
  ascii_isupper_def ascii_islower_def ascii_isalnum_def ascii_tolower_def slice_def strip_def
  is_linebreak_def splitlines_def str_istitle_def str_isupper_def isword_def word_before_def
  word_after_def at_boundary_def at_end_def run_length_def rep_ends_def match_at_def
  re_match_def re_search_def group0_def group_def re_sub_def re_split_first_def lit_def
  is_ascii_letter_def lit_i_char_def lit_i_def chars_def trailing_sep_pat_def opt_dot_def
  honorific_pat_def ws_run_pat_def strip_trailing_sep_def remove_honorifics_def
  collapse_ws_def clean_name_def banned_word_pat_def title_chars_pat_def title_score_def
  guess_title_def name_tail_def author_labels_def author_pat_def editor_labels_def
  editor_pat_def unknown_pat_def
  find_people_def digit_def year_pat_def year_markers_def marker_pat_def find_year_def
  publisher_labels_def publisher_pat_def contact_sep_pat_def imprint_word_pat_def publisher_cand_def
  find_publisher_def

section \<open>The record of the inference call\<close>

lemma UNKNOWN_nonempty: "UNKNOWN \<noteq> []"
  by (simp add: UNKNOWN_def str_def)

lemma or_unknown_nonempty: "or_unknown x \<noteq> []"
  by (simp add: or_unknown_def UNKNOWN_nonempty)

lemma digits_of_nonempty: "digits_of n \<noteq> []"
  by (subst digits_of.simps) simp

lemma str_of_int_nonempty: "str_of_int n \<noteq> []"
  by (simp add: str_of_int_def digits_of_nonempty)

lemma populated_record:
  assumes "pages \<noteq> []"
  shows "populated [(''Book Title'', or_unknown t), (''Author'', or_unknown a),
           (''Editor'', or_unknown e), (''Year of Publishing'', or_unknown y),
           (''Publisher'', or_unknown p), (''Language'', or_unknown l),
           (''Number of Pages'', pages), (''Format'', str ''PDF'')]"
  using assms by (simp add: populated_def or_unknown_nonempty str_def)

lemma populated_all_unknown: "populated all_unknown"
  by (simp add: populated_def all_unknown_def UNKNOWN_nonempty str_def)

lemma parse_body_populated:
  assumes "parse_body db lib pdf_path use_ocr = Inr r"
  shows "populated r"
proof (cases "fitz_open lib pdf_path")
  case (Inl e)
  with assms show ?thesis by (simp add: parse_body_def)
next
  case (Inr doc)
  note opened = this
  show ?thesis
  proof (cases "metadata doc")
    case (Inl e)
    with assms opened show ?thesis by (simp add: parse_body_def)
  next
    case (Inr md)
    have pages: "(if page_count doc \<noteq> 0 then str_of_int (page_count doc) else UNKNOWN) \<noteq> []"
      by (simp add: str_of_int_nonempty UNKNOWN_nonempty)
    from assms opened Inr show ?thesis
      apply (simp only: parse_body_def sum.case Let_def case_prod_beta sum.inject)
      apply (erule subst)
      apply (rule populated_record [OF pages])
      done
  qed
qed

text \<open>
  C1. For every document, the record that \<open>parse_pdf\<close> returns has the eight fields
  Book Title, Author, Editor, Year of Publishing, Publisher, Language, Number of Pages
  and Format, each bound to a non-empty string, and Format is the constant \<open>PDF\<close>.
  This holds for every character database, every behaviour of the libraries and both
  settings of the OCR switch.
\<close>

theorem parse_pdf_fields_populated:
  "map fst (parse_pdf db lib pdf_path use_ocr) =
     [''Book Title'', ''Author'', ''Editor'', ''Year of Publishing'', ''Publisher'',
      ''Language'', ''Number of Pages'', ''Format'']
   \<and> list_all (\<lambda>kv. snd kv \<noteq> []) (parse_pdf db lib pdf_path use_ocr)
   \<and> map_of (parse_pdf db lib pdf_path use_ocr) ''Format'' = Some (str ''PDF'')"
proof (cases "parse_body db lib pdf_path use_ocr")
  case (Inl e)
  then show ?thesis using populated_all_unknown by (simp add: parse_pdf_def populated_def)
next
  case (Inr r)
  then show ?thesis using parse_body_populated [OF Inr] by (simp add: parse_pdf_def populated_def)
qed


lemma page_failure_omitted: "page_texts (ps @ Inl e # qs) = page_texts (ps @ qs)"
  by (induction ps rule: page_texts.induct) simp_all









section \<open>The examples of the specification\<close>

text \<open>
  C3, as stated, fails: on the lines \<open>INTRODUCTION\<close>, \<open>The Art of Systems Design\<close>,
  \<open>by A. Author\<close> the guess is not \<open>The Art of Systems Design\<close>.
\<close>

theorem guess_title_example_counterexample:
  "guess_title ascii_ucd
     [str ''INTRODUCTION'', str ''The Art of Systems Design'', str ''by A. Author'']
   \<noteq> str ''The Art of Systems Design''"
  by (simp add: eval_defs cong: eval_congs)

text \<open>
  C3, amended. On those lines \<open>guess_title\<close> returns \<open>INTRODUCTION\<close>. The \<open>by\<close> line is
  rejected by the banned-word filter. \<open>The Art of Systems Design\<close> is not in title case
  for \<open>str.istitle\<close>, since its word \<open>of\<close> starts in lower case; it gets no bonus of 2
  and scores 2 (length and character set). The upper-case line scores 3 (upper case,
  length and character set) and is chosen.
\<close>

theorem guess_title_example:
  "title_cands ascii_ucd
     [str ''INTRODUCTION'', str ''The Art of Systems Design'', str ''by A. Author'']
     = [(3, str ''INTRODUCTION''), (2, str ''The Art of Systems Design'')]
   \<and> str_istitle ascii_ucd (str ''The Art of Systems Design'') = False
   \<and> re_search ascii_ucd banned_word_pat (str ''by A. Author'') \<noteq> None
   \<and> guess_title ascii_ucd
     [str ''INTRODUCTION'', str ''The Art of Systems Design'', str ''by A. Author'']
     = str ''INTRODUCTION''"
  by (simp add: eval_defs cong: eval_congs)

text \<open>
  C4, as stated, fails: on \<open>Written by John A. Smith, Edited by Dr. Jane Roe.\<close> the
  pair returned is not (\<open>John A. Smith\<close>, \<open>Jane Roe\<close>).
\<close>

theorem find_people_example_counterexample:
  "find_people ascii_ucd (str ''Written by John A. Smith, Edited by Dr. Jane Roe.'') None
     \<noteq> (str ''John A. Smith'', str ''Jane Roe'')"
  by (simp add: eval_defs cong: eval_congs)

text \<open>
  C4, amended. On that text, with no embedded author, \<open>find_people\<close> returns the author
  \<open>John A. Smith\<close> and the editor \<open>Jane Roe.\<close>: the honorific is removed, and the full
  stop that ends the sentence stays, since the editor's name runs to the end of the
  line and \<open>clean_name\<close> strips only a final comma or semicolon.
\<close>

theorem find_people_example:
  "find_people ascii_ucd (str ''Written by John A. Smith, Edited by Dr. Jane Roe.'') None
     = (str ''John A. Smith'', str ''Jane Roe.'')"
  by (simp add: eval_defs cong: eval_congs)

section \<open>LanguageDetector: ties\<close>

lemma bump_map:
  "bump k (map (\<lambda>k'. (k', f k')) ks) = map (\<lambda>k'. (k', if k' = k then f k' + 1 else f k')) ks"
  by (simp add: bump_def)

lemma count_scripts_map:
  "count_scripts (map (\<lambda>k. (k, f k)) ks) s =
     map (\<lambda>k. (k, f k + length (filter (\<lambda>c. script_of c = Some k) s))) ks"
proof (induction s arbitrary: f)
  case Nil
  show ?case by simp
next
  case (Cons c cs)
  show ?case
  proof (cases "script_of c")
    case None
    then show ?thesis using Cons.IH [of f] by simp
  next
    case (Some k)
    then show ?thesis
      using Cons.IH [of "\<lambda>k'. if k' = k then f k' + 1 else f k'"]
      by (simp add: bump_map)
  qed
qed

lemma script_counts_eq:
  "script_counts sample = map (\<lambda>k. (k, script_count k sample)) scripts"
  using count_scripts_map [of "\<lambda>k. 0" scripts "take 5000 sample"]
  by (simp add: script_counts_def script_count_def comp_def)

lemma max_from_best:
  "\<forall>x \<in> set xs. key x \<le> key best \<Longrightarrow> max_from key best xs = best"
  by (induction xs) auto

lemma max_from_later:
  assumes "key best < key y"
    and "\<forall>x \<in> set xs. key x < key y"
    and "\<forall>x \<in> set ys. key x \<le> key y"
  shows "max_from key best (xs @ y # ys) = y"
  using assms
proof (induction xs arbitrary: best)
  case Nil
  then show ?case by (simp add: max_from_best)
next
  case (Cons x xs)
  then show ?case by simp
qed

lemma max_from_first_maximum:
  assumes "kv # kvs = map (\<lambda>k. (k, f k)) (pre @ k # post)"
    and "\<forall>k' \<in> set pre. f k' < f k"
    and "\<forall>k' \<in> set post. f k' \<le> f k"
  shows "max_from snd kv kvs = (k, f k)"
proof (cases pre)
  case Nil
  with assms have "kv = (k, f k)" and "kvs = map (\<lambda>k. (k, f k)) post"
    by simp_all
  with assms(3) show ?thesis by (simp add: max_from_best)
next
  case (Cons p ps)
  with assms have kv: "kv = (p, f p)"
    and kvs: "kvs = map (\<lambda>k. (k, f k)) ps @ (k, f k) # map (\<lambda>k. (k, f k)) post"
    by simp_all
  have "max_from snd (p, f p) (map (\<lambda>k. (k, f k)) ps @ (k, f k) # map (\<lambda>k. (k, f k)) post) = (k, f k)"
    using assms(2,3) Cons by (intro max_from_later) auto
  with kv kvs show ?thesis by simp
qed

lemma guess_language_first_max:
  assumes "sample \<noteq> []" and "40 \<le> length (strip db sample)"
    and "scripts = pre @ k # post"
    and "\<forall>k' \<in> set pre. script_count k' sample < script_count k sample"
    and "\<forall>k' \<in> set post. script_count k' sample \<le> script_count k sample"
    and "20 \<le> script_count k sample"
  shows "guess_language db sample = language_of k"
proof -
  obtain kv kvs where split: "script_counts sample = kv # kvs"
    by (cases "script_counts sample") (simp_all add: script_counts_eq scripts_def)
  then have "kv # kvs = map (\<lambda>k. (k, script_count k sample)) (pre @ k # post)"
    using assms(3) by (simp add: script_counts_eq)
  then have "max_from snd kv kvs = (k, script_count k sample)"
    using assms(4,5) by (rule max_from_first_maximum)
  then show ?thesis
    using assms(1,2,6) split by (simp add: guess_language_def)
qed


lemma devanagari_latin_tie:
  assumes "sample \<noteq> []" and "40 \<le> length (strip db sample)"
    and "script_count Devanagari sample = script_count Latin sample"
    and "20 \<le> script_count Latin sample"
    and "\<forall>k. script_count k sample \<le> script_count Latin sample"
  shows "guess_language db sample = str ''Hindi''"
proof -
  have "guess_language db sample = language_of Devanagari"
    using assms by (intro guess_language_first_max [where pre = "[]"]) (simp_all add: scripts_def)
  then show ?thesis by (simp add: language_of_def)
qed

lemma latin_cyrillic_tie_english:
  assumes "sample \<noteq> []" and "40 \<le> length (strip db sample)"
    and "script_count Latin sample = script_count Cyrillic sample"
    and "20 \<le> script_count Latin sample"
    and "\<forall>k. k \<noteq> Latin \<and> k \<noteq> Cyrillic \<longrightarrow> script_count k sample < script_count Latin sample"
  shows "guess_language db sample = str ''English''"
proof -
  have "guess_language db sample = language_of Latin"
    using assms
    by (intro guess_language_first_max [where post = "[Arabic, Cyrillic]"])
      (auto simp: scripts_def intro: less_imp_le)
  then show ?thesis by (simp add: language_of_def)
qed



section \<open>What a match consists of\<close>

lemma rmatch_Eps_iff:
  "(j, g') \<in> set (rmatch db Eps s (i, g)) \<longleftrightarrow> j = i \<and> g' = g"
  by auto

lemma rmatch_Atom_iff:
  "(j, g') \<in> set (rmatch db (Atom a) s (i, g)) \<longleftrightarrow>
     j = Suc i \<and> g' = g \<and> i < length s \<and> atom_ok db a (s ! i)"
  by auto

lemma rmatch_Seq_iff:
  "(j, g') \<in> set (rmatch db (Seq r1 r2) s st) \<longleftrightarrow>
     (\<exists>k h. (k, h) \<in> set (rmatch db r1 s st) \<and> (j, g') \<in> set (rmatch db r2 s (k, h)))"
  by auto

lemma rmatch_Alt_iff:
  "(j, g') \<in> set (rmatch db (Alt r1 r2) s st) \<longleftrightarrow>
     (j, g') \<in> set (rmatch db r1 s st) \<or> (j, g') \<in> set (rmatch db r2 s st)"
  by auto

lemma rmatch_Opt_iff:
  "(j, g') \<in> set (rmatch db (Opt r) s (i, g)) \<longleftrightarrow>
     (j, g') \<in> set (rmatch db r s (i, g)) \<or> (j = i \<and> g' = g)"
  by auto

lemma rmatch_Rep_iff:
  "(j, g') \<in> set (rmatch db (Rep a lo hi) s (i, g)) \<longleftrightarrow>
     g' = g \<and> j \<in> set (rep_ends db a lo hi s i)"
  by auto

lemma rmatch_Group_iff:
  "(j, g') \<in> set (rmatch db (Group n r) s (i, g)) \<longleftrightarrow>
     (\<exists>h. (j, h) \<in> set (rmatch db r s (i, g)) \<and> g' = h(n \<mapsto> (i, j)))"
  by auto

lemma rmatch_WordB_iff:
  "(j, g') \<in> set (rmatch db WordB s (i, g)) \<longleftrightarrow> j = i \<and> g' = g \<and> at_boundary db s i"
  by auto

lemma rmatch_Bos_iff:
  "(j, g') \<in> set (rmatch db Bos s (i, g)) \<longleftrightarrow> j = i \<and> g' = g \<and> i = 0"
  by auto

lemma rmatch_Eos_iff:
  "(j, g') \<in> set (rmatch db Eos s (i, g)) \<longleftrightarrow> j = i \<and> g' = g \<and> at_end s i"
  by auto

lemma rmatch_NotBehind_iff:
  "(j, g') \<in> set (rmatch db (NotBehind a) s (i, g)) \<longleftrightarrow>
     j = i \<and> g' = g \<and> \<not> (0 < i \<and> i \<le> length s \<and> atom_ok db a (s ! (i - 1)))"
  by auto

lemma rmatch_NotAhead_iff:
  "(j, g') \<in> set (rmatch db (NotAhead a) s (i, g)) \<longleftrightarrow>
     j = i \<and> g' = g \<and> \<not> (i < length s \<and> atom_ok db a (s ! i))"
  by auto

lemmas rmatch_iffs = rmatch_Eps_iff rmatch_Atom_iff rmatch_Seq_iff rmatch_Alt_iff rmatch_Opt_iff
  rmatch_Rep_iff rmatch_Group_iff rmatch_WordB_iff rmatch_Bos_iff rmatch_Eos_iff
  rmatch_NotBehind_iff rmatch_NotAhead_iff

section \<open>YearExtractor: the range of the result\<close>

lemma run_length_le: "i + run_length db a s i \<le> max i (length s)"
proof -
  have "run_length db a s i \<le> length (drop i s)"
    unfolding run_length_def by (rule length_takeWhile_le)
  then show ?thesis by simp
qed

lemma run_length_ok:
  assumes "k < run_length db a s i"
  shows "i + k < length s \<and> atom_ok db a (s ! (i + k))"
proof -
  let ?t = "takeWhile (atom_ok db a) (drop i s)"
  from assms have k: "k < length ?t" by (simp add: run_length_def)
  have "length ?t \<le> length (drop i s)" by (rule length_takeWhile_le)
  with k have lt: "i + k < length s" by simp
  from k have "?t ! k \<in> set ?t" by simp
  then have "atom_ok db a (?t ! k)" by (rule set_takeWhileD [THEN conjunct2])
  moreover from k have "?t ! k = drop i s ! k" by (rule takeWhile_nth)
  ultimately show ?thesis using lt by simp
qed

lemma rep_ends_sound:
  assumes "j \<in> set (rep_ends db a lo hi s i)"
  shows "i + lo \<le> j \<and> j \<le> i + run_length db a s i \<and> (\<forall>h. hi = Some h \<longrightarrow> j \<le> i + h)"
  using assms by (auto simp: rep_ends_def Let_def split: if_splits option.splits)

lemma rep_ends_chars:
  assumes "j \<in> set (rep_ends db a lo hi s i)" and "i \<le> k" and "k < j"
  shows "k < length s \<and> atom_ok db a (s ! k)"
proof -
  from assms(1) have "j \<le> i + run_length db a s i" by (simp add: rep_ends_sound)
  with assms(2,3) have "k - i < run_length db a s i" by simp
  then have "i + (k - i) < length s \<and> atom_ok db a (s ! (i + (k - i)))" by (rule run_length_ok)
  with assms(2) show ?thesis by simp
qed

lemma slice4:
  assumes "Suc (Suc (Suc (Suc i))) \<le> length s"
  shows "slice i (Suc (Suc (Suc (Suc i)))) s = [s ! i, s ! Suc i, s ! Suc (Suc i), s ! Suc (Suc (Suc i))]"
proof -
  have a: "drop i s = s ! i # drop (Suc i) s"
    using assms by (simp add: Cons_nth_drop_Suc)
  have b: "drop (Suc i) s = s ! Suc i # drop (Suc (Suc i)) s"
    using assms by (simp add: Cons_nth_drop_Suc)
  have c: "drop (Suc (Suc i)) s = s ! Suc (Suc i) # drop (Suc (Suc (Suc i))) s"
    using assms by (simp add: Cons_nth_drop_Suc)
  have d: "drop (Suc (Suc (Suc i))) s = s ! Suc (Suc (Suc i)) # drop (Suc (Suc (Suc (Suc i)))) s"
    using assms by (simp add: Cons_nth_drop_Suc)
  have n: "Suc (Suc (Suc (Suc i))) - i = Suc (Suc (Suc (Suc 0)))"
    by arith
  show ?thesis
    unfolding slice_def n a b c d by simp
qed

lemma two_digits:
  assumes "j \<in> set (rep_ends db digit 2 (Some 2) s i)"
  shows "j = Suc (Suc i) \<and> j \<le> length s \<and> decimal db (s ! i) \<noteq> None \<and> decimal db (s ! Suc i) \<noteq> None"
proof -
  from assms have j: "j = i + 2" using rep_ends_sound [OF assms] by auto
  have "i < length s \<and> atom_ok db digit (s ! i)"
    using rep_ends_chars [OF assms, of i] j by simp
  moreover have "i + 1 < length s \<and> atom_ok db digit (s ! (i + 1))"
    using rep_ends_chars [OF assms, of "i + 1"] j by simp
  ultimately show ?thesis using j by (auto simp: digit_def)
qed

lemma year_pat_sound:
  assumes "(j, g') \<in> set (rmatch db year_pat s (i, g))"
  shows "j = i + 4 \<and> j \<le> length s \<and> g' 1 = Some (i, j) \<and> year_token db (slice i j s)"
  using assms
  apply (simp add: year_pat_def lit_def ch_def rmatch_iffs del: rmatch.simps)
  apply (elim conjE exE disjE)
    apply (drule two_digits)
    apply (simp add: slice4 year_token_def)
   apply (simp add: slice4 year_token_def digit_def)
  apply (simp add: slice4 year_token_def)
  done

lemma match_at_start: "match_at db r s i = Some m \<Longrightarrow> m_start m = i"
  by (auto simp: match_at_def split: list.splits)

lemma match_at_result:
  "match_at db r s i = Some m \<Longrightarrow> (m_end m, m_groups m) \<in> set (rmatch db r s (i, Map.empty))"
  by (auto simp: match_at_def split: list.splits)

lemma first_match_at:
  "first_match db r s is = Some m \<Longrightarrow> \<exists>i \<in> set is. match_at db r s i = Some m"
  by (induction "is") (auto split: option.splits)

lemma re_search_at:
  assumes "re_search db r s = Some m"
  shows "m_start m \<le> length s \<and> match_at db r s (m_start m) = Some m"
proof -
  from assms obtain i where "i \<in> set [0..<Suc (length s)]" and "match_at db r s i = Some m"
    unfolding re_search_def by (blast dest: first_match_at)
  then show ?thesis using match_at_start [of db r s i m] by auto
qed

lemma year_search_sound:
  assumes "re_search db year_pat s = Some m"
  shows "year_token db (group0 s m) \<and> group s m 1 = group0 s m"
proof -
  from assms have "match_at db year_pat s (m_start m) = Some m" by (simp add: re_search_at)
  then have "(m_end m, m_groups m) \<in> set (rmatch db year_pat s (m_start m, Map.empty))"
    by (rule match_at_result)
  then show ?thesis using year_pat_sound by (fastforce simp: group0_def group_def)
qed

lemma marker_year_sound:
  "marker_year db text markers = Some y \<Longrightarrow> year_token db y"
  by (induction markers) (auto split: option.splits dest: year_search_sound)

lemma find_year_token: "find_year db text = UNKNOWN \<or> year_token db (find_year db text)"
  by (auto simp: find_year_def split: option.splits dest: marker_year_sound year_search_sound)

lemma year_token_value:
  assumes "ucd_digits db" and "year_token db y"
  shows "length y = 4 \<and> (\<exists>n. py_int db y = Some n \<and> 1500 \<le> n \<and> n \<le> 2035)"
proof -
  from assms(1) have small: "\<And>c v. decimal db c = Some v \<Longrightarrow> v \<le> 9"
    and ascii: "\<And>c. 48 \<le> c \<Longrightarrow> c \<le> 57 \<Longrightarrow> decimal db c = Some (c - 48)"
    by (auto simp: ucd_digits_def)
  from assms(2) obtain a b c d where y: "y = [a, b, c, d]" and shape:
    "(a = 49 \<and> 53 \<le> b \<and> b \<le> 57 \<and> decimal db c \<noteq> None \<and> decimal db d \<noteq> None)
      \<or> (a = 50 \<and> b = 48 \<and> 48 \<le> c \<and> c \<le> 50 \<and> decimal db d \<noteq> None)
      \<or> (a = 50 \<and> b = 48 \<and> c = 51 \<and> 48 \<le> d \<and> d \<le> 53)"
    by (auto simp: year_token_def)
  from shape show ?thesis
  proof (elim disjE conjE)
    assume h: "a = 49" "53 \<le> b" "b \<le> 57" "decimal db c \<noteq> None" "decimal db d \<noteq> None"
    then obtain vc vd where v: "decimal db c = Some vc" "decimal db d = Some vd" by auto
    with small have "vc \<le> 9" "vd \<le> 9" by auto
    moreover have "decimal db a = Some 1" using ascii [of a] h by simp
    moreover have "decimal db b = Some (b - 48)" using ascii [of b] h by simp
    ultimately show ?thesis using y v h by (auto simp: py_int_def)
  next
    assume h: "a = 50" "b = 48" "48 \<le> c" "c \<le> 50" "decimal db d \<noteq> None"
    then obtain vd where v: "decimal db d = Some vd" by auto
    with small have "vd \<le> 9" by auto
    moreover have "decimal db a = Some 2" using ascii [of a] h by simp
    moreover have "decimal db b = Some 0" using ascii [of b] h by simp
    moreover have "decimal db c = Some (c - 48)" using ascii [of c] h by simp
    ultimately show ?thesis using y v h by (auto simp: py_int_def)
  next
    assume h: "a = 50" "b = 48" "c = 51" "48 \<le> d" "d \<le> 53"
    have "decimal db a = Some 2" using ascii [of a] h by simp
    moreover have "decimal db b = Some 0" using ascii [of b] h by simp
    moreover have "decimal db c = Some 3" using ascii [of c] h by simp
    moreover have "decimal db d = Some (d - 48)" using ascii [of d] h by simp
    ultimately show ?thesis using y h by (auto simp: py_int_def)
  qed
qed

lemma ucd_digits_ascii: "ucd_digits ascii_ucd"
  by (auto simp: ucd_digits_def ascii_ucd_def ascii_decimal_def split: if_splits)

text \<open>
  C6. For every text, \<open>find_year\<close> returns either \<open>Unknown\<close> or a string of four
  decimal digits whose integer value lies between 1500 and 2035. (The digits after the
  first two may be any Unicode decimal digits, which \<open>\d\<close> matches; their values are
  read through the database, as \<open>int\<close> does.)
\<close>

theorem find_year_in_range:
  assumes "ucd_digits db"
  shows "find_year db text = UNKNOWN
     \<or> (length (find_year db text) = 4
        \<and> (\<exists>n. py_int db (find_year db text) = Some n \<and> 1500 \<le> n \<and> n \<le> 2035))"
  using find_year_token [of db "text"] year_token_value [OF assms] by blast

theorem find_year_in_range_witness:
  "ucd_digits ascii_ucd
   \<and> find_year ascii_ucd (169 # str '' 1987 Springer Publishing'') = str ''1987''
   \<and> py_int ascii_ucd (str ''1987'') = Some 1987
   \<and> find_year ascii_ucd (str ''random text 2041 nothing else'') = UNKNOWN"
proof -
  have y: "find_year ascii_ucd (169 # str '' 1987 Springer Publishing'') = str ''1987''"
    by (simp add: eval_defs cong: eval_congs)
  have u: "find_year ascii_ucd (str ''random text 2041 nothing else'') = UNKNOWN"
    by (simp add: eval_defs cong: eval_congs)
  have v: "py_int ascii_ucd (str ''1987'') = Some 1987"
    by (simp add: py_int_def eval_defs)
  show ?thesis
    using find_year_in_range [OF ucd_digits_ascii, of "169 # str '' 1987 Springer Publishing''"] y u v
    by (simp add: ucd_digits_ascii)
qed

section \<open>PublisherExtractor: the labelled line\<close>








section \<open>PersonExtractor: the by of Edited by\<close>

lemma rmatch_seq_Cons:
  "rmatch db (seq (r # rs)) s st = concat (map (rmatch db (seq rs) s) (rmatch db r s st))"
proof (cases rs)
  case Nil
  have "rmatch db Eps s = (\<lambda>st. [st])" by (rule ext) simp
  with Nil show ?thesis by simp
next
  case (Cons r' rs')
  then show ?thesis by simp
qed

lemma rmatch_atoms:
  "rmatch db (seq (map Atom as)) s (i, g) =
     (if word_at db as s i then [(i + length as, g)] else [])"
proof (induction as arbitrary: i)
  case Nil
  show ?case by simp
next
  case (Cons a as)
  have "rmatch db (seq (map Atom (a # as))) s (i, g) =
      concat (map (rmatch db (seq (map Atom as)) s) (rmatch db (Atom a) s (i, g)))"
    by (simp only: list.map rmatch_seq_Cons)
  then show ?case using Cons.IH by simp
qed

lemma rmatch_lit_i:
  "rmatch db (lit_i w) s (i, g) =
     (if reads_nocase db w s i then [(i + length w, g)] else [])"
  using rmatch_atoms [of db "map (\<lambda>c. lit_i_char (of_char c)) w" s i g]
  by (simp add: lit_i_def reads_nocase_def comp_def)

lemma word_at_append:
  "word_at db (as @ bs) s i = (word_at db as s i \<and> word_at db bs s (i + length as))"
  by (induction as arbitrary: i) auto

lemma word_at_length: "word_at db as s i \<Longrightarrow> i + length as \<le> max i (length s)"
proof (induction as arbitrary: i)
  case Nil
  show ?case by simp
next
  case (Cons a as)
  from Cons.prems have i: "i < length s" and w: "word_at db as s (Suc i)" by simp_all
  from Cons.IH [OF w] i show ?case by simp
qed

lemma edited_by_parts:
  assumes "reads_nocase db ''Edited by'' s p"
  shows "p + 9 \<le> length s \<and> s ! (p + 6) = 32 \<and> atom_ok db (LitI 98) (s ! (p + 7))
     \<and> reads_nocase db ''By'' s (p + 7)"
proof -
  let ?f = "\<lambda>c. lit_i_char (of_char c)"
  have parts: "map ?f ''Edited by'' = (map ?f ''Edited'' @ [Lit 32]) @ [LitI 98, LitI 121]"
    by (simp add: lit_i_char_def is_ascii_letter_def)
  have by_atoms: "map ?f ''By'' = [LitI 98, LitI 121]"
    by (simp add: lit_i_char_def is_ascii_letter_def)
  from assms have all: "word_at db ((map ?f ''Edited'' @ [Lit 32]) @ [LitI 98, LitI 121]) s p"
    by (simp only: reads_nocase_def parts)
  then have both: "word_at db (map ?f ''Edited'' @ [Lit 32]) s p
      \<and> word_at db [LitI 98, LitI 121] s (p + length (map ?f ''Edited'' @ [Lit 32]))"
    by (simp only: word_at_append)
  have len7: "length (map ?f ''Edited'' @ [Lit 32]) = 7" by simp
  from both have tail: "word_at db [LitI 98, LitI 121] s (p + 7)"
    by (simp only: len7)
  from both have "word_at db (map ?f ''Edited'') s p
      \<and> word_at db [Lit 32] s (p + length (map ?f ''Edited''))"
    by (simp only: word_at_append)
  moreover have "length (map ?f ''Edited'') = 6" by simp
  ultimately have "word_at db [Lit 32] s (p + 6)"
    by (simp only:)
  then have space: "s ! (p + 6) = 32" by simp
  from tail have b: "atom_ok db (LitI 98) (s ! (p + 7))" by simp
  from word_at_length [OF all] have "p + 9 \<le> max p (length s)" by simp
  then have len: "p + 9 \<le> length s" by simp
  from tail have "reads_nocase db ''By'' s (p + 7)"
    by (simp only: reads_nocase_def by_atoms)
  with len space b show ?thesis by simp
qed

lemma first_match_none:
  "list_all (\<lambda>i. match_at db r s i = None) xs \<Longrightarrow> first_match db r s (xs @ ys) = first_match db r s ys"
  by (induction xs) simp_all

lemma re_search_first:
  assumes "q \<le> length s" and "\<forall>i<q. match_at db r s i = None" and "match_at db r s q = Some m"
  shows "re_search db r s = Some m"
proof -
  have "[0..<Suc (length s)] = [0..<q] @ [q..<Suc (length s)]"
    using upt_add_eq_append [of 0 q "Suc (length s) - q"] assms(1) by simp
  moreover have "[q..<Suc (length s)] = q # [Suc q..<Suc (length s)]"
    using assms(1) by (simp add: upt_conv_Cons)
  ultimately have "[0..<Suc (length s)] = [0..<q] @ q # [Suc q..<Suc (length s)]"
    by simp
  moreover have "list_all (\<lambda>i. match_at db r s i = None) [0..<q]"
    using assms(2) by (simp add: list_all_iff)
  ultimately show ?thesis
    using assms(3) by (simp add: re_search_def first_match_none)
qed

lemma labelled_name:
  assumes "at_boundary db s q"
    and "\<exists>rest. rmatch db labels s (q, Map.empty) = (e, Map.empty) # rest"
    and "match_at db name_tail s e = Some n"
  shows "match_at db (seq [WordB, labels, name_tail]) s q = Some (Match q (m_end n) (m_groups n))"
proof -
  from assms(2) obtain rest where "rmatch db labels s (q, Map.empty) = (e, Map.empty) # rest"
    by blast
  moreover from assms(3) obtain xs where "rmatch db name_tail s (e, Map.empty) = (m_end n, m_groups n) # xs"
    by (auto simp: match_at_def split: list.splits)
  ultimately show ?thesis using assms(1) by (simp add: match_at_def)
qed

lemma ucd_letters_ascii: "ucd_letters ascii_ucd"
  by (auto simp: ucd_letters_def isword_def ascii_ucd_def ascii_isalnum_def ascii_tolower_def
      ascii_isupper_def ascii_islower_def split: if_splits)

lemma group_of_groups: "group s (Match a b (m_groups n)) k = group s n k"
  by (simp add: group_def)

text \<open>
  C9. The alternative \<open>By\<close> of the author pattern matches the \<open>by\<close> of \<open>Edited by\<close>.
  Let the text read \<open>Edited by\<close> (in any case) at a word boundary at position \<open>p\<close>, with
  a name after it (the rest of both patterns matches at \<open>p + 9\<close>), and let this be the
  first person-labelled phrase: no match of the editor pattern starts before \<open>p\<close> and
  no match of the author pattern starts before the \<open>by\<close> at \<open>p + 7\<close>. Then, whatever
  the embedded author is, \<open>find_people\<close> returns the normalized name as the author and
  \<open>Unknown\<close> as the editor.
\<close>

theorem find_people_edited_by:
  assumes db: "ucd_letters db"
    and label: "reads_nocase db ''Edited by'' t p"
    and boundary: "at_boundary db t p"
    and name: "match_at db name_tail t (p + 9) = Some n"
    and no_editor: "\<forall>i<p. match_at db editor_pat t i = None"
    and no_author: "\<forall>i<p + 7. match_at db author_pat t i = None"
  shows "find_people db t meta_author = (clean_name db (group t n 1), UNKNOWN)"
proof -
  from edited_by_parts [OF label] have len: "p + 9 \<le> length t"
    and space: "t ! (p + 6) = 32"
    and b: "atom_ok db (LitI 98) (t ! (p + 7))"
    and by_word: "reads_nocase db ''By'' t (p + 7)"
    by simp_all
  have "\<exists>rest. rmatch db editor_labels t (p, Map.empty) = (p + 9, Map.empty) # rest"
    using label by (simp add: editor_labels_def rmatch_lit_i)
  from labelled_name [OF boundary this name]
  have "match_at db editor_pat t p = Some (Match p (m_end n) (m_groups n))"
    by (simp add: editor_pat_def)
  with no_editor len
  have editor: "re_search db editor_pat t = Some (Match p (m_end n) (m_groups n))"
    by (intro re_search_first [where q = p]) simp_all
  from db have letter: "\<And>l c. 97 \<le> l \<Longrightarrow> l \<le> 122 \<Longrightarrow> atom_ok db (LitI l) c \<Longrightarrow> isword db c"
    unfolding ucd_letters_def by blast
  from db have not_word: "\<not> isword db 32"
    by (simp add: ucd_letters_def)
  have eq: "t ! (p + 7 - 1) = t ! (p + 6)"
    by (rule arg_cong [where f = "nth t"]) arith
  have before: "\<not> word_before db t (p + 7)"
    unfolding word_before_def eq space using not_word by blast
  have "isword db (t ! (p + 7))"
    using letter [of 98, OF _ _ b] by simp
  then have after: "word_after db t (p + 7)"
    using len by (simp add: word_after_def)
  from before after have boundary': "at_boundary db t (p + 7)"
    by (simp add: at_boundary_def)
  have "\<exists>rest. rmatch db author_labels t (p + 7, Map.empty) = (p + 9, Map.empty) # rest"
    using by_word by (simp add: author_labels_def rmatch_lit_i)
  from labelled_name [OF boundary' this name]
  have "match_at db author_pat t (p + 7) = Some (Match (p + 7) (m_end n) (m_groups n))"
    by (simp add: author_pat_def)
  with no_author len
  have author: "re_search db author_pat t = Some (Match (p + 7) (m_end n) (m_groups n))"
    by (intro re_search_first [where q = "p + 7"]) simp_all
  show ?thesis
    by (cases "clean_name db (group t n 1) = UNKNOWN")
       (simp_all add: find_people_def author editor group_of_groups)
qed

theorem find_people_edited_by_witness:
  "ucd_letters ascii_ucd
   \<and> reads_nocase ascii_ucd ''Edited by'' (str ''Edited by Jane Roe'') 0
   \<and> at_boundary ascii_ucd (str ''Edited by Jane Roe'') 0
   \<and> match_at ascii_ucd name_tail (str ''Edited by Jane Roe'') (0 + 9) \<noteq> None
   \<and> find_people ascii_ucd (str ''Edited by Jane Roe'') None = (str ''Jane Roe'', UNKNOWN)"
proof -
  let ?t = "str ''Edited by Jane Roe''"
  let ?n = "the (match_at ascii_ucd name_tail ?t (0 + 9))"
  have label: "reads_nocase ascii_ucd ''Edited by'' ?t 0"
    by (simp add: reads_nocase_def eval_defs cong: eval_congs)
  have boundary: "at_boundary ascii_ucd ?t 0"
    by (simp add: eval_defs cong: eval_congs)
  have some: "match_at ascii_ucd name_tail ?t (0 + 9) \<noteq> None"
    by (simp add: eval_defs cong: eval_congs)
  then have name: "match_at ascii_ucd name_tail ?t (0 + 9) = Some ?n"
    by simp
  have no_editor: "\<forall>i<0. match_at ascii_ucd editor_pat ?t i = None"
    by simp
  have no_author: "\<forall>i<0 + 7. match_at ascii_ucd author_pat ?t i = None"
    by (simp add: numeral_eq_Suc All_less_Suc) (simp add: eval_defs cong: eval_congs)
  have result: "clean_name ascii_ucd (group ?t ?n 1) = str ''Jane Roe''"
    by (simp add: eval_defs cong: eval_congs)
  from find_people_edited_by [OF ucd_letters_ascii label boundary name no_editor no_author, of None]
  show ?thesis using label boundary some result by (simp add: ucd_letters_ascii)
qed

section \<open>NameNormalizer: a second application\<close>

lemma last_dropWhile: "dropWhile P xs \<noteq> [] \<Longrightarrow> last (dropWhile P xs) = last xs"
  by (induction xs) (auto split: if_splits)

lemma strip_trimmed: "trimmed db (strip db s)"
proof -
  let ?P = "isspace db"
  let ?a = "dropWhile ?P s"
  let ?c = "dropWhile ?P (rev ?a)"
  show ?thesis
  proof (cases "?c = []")
    case True
    then show ?thesis by (simp add: trimmed_def strip_def)
  next
    case False
    then have a: "?a \<noteq> []" by (metis dropWhile.simps(1) rev.simps(1))
    from False have "\<not> ?P (hd ?c)" by (rule hd_dropWhile)
    then have l: "\<not> ?P (last (rev ?c))" using False by (simp add: last_rev)
    from False have "last ?c = last (rev ?a)" by (rule last_dropWhile)
    then have "hd (rev ?c) = hd ?a" using False a by (simp add: hd_rev last_rev)
    moreover from a have "\<not> ?P (hd ?a)" by (rule hd_dropWhile)
    ultimately show ?thesis using l by (simp add: trimmed_def strip_def)
  qed
qed

lemma strip_id:
  assumes "trimmed db s"
  shows "strip db s = s"
proof (cases "s = []")
  case True
  then show ?thesis by (simp add: strip_def)
next
  case False
  with assms have h: "\<not> isspace db (hd s)" and l: "\<not> isspace db (last s)"
    by (simp_all add: trimmed_def)
  from h False have a: "dropWhile (isspace db) s = s"
    by (simp add: dropWhile_eq_self_iff)
  from l False have "dropWhile (isspace db) (rev s) = rev s"
    by (simp add: dropWhile_eq_self_iff hd_rev)
  with a show ?thesis by (simp add: strip_def)
qed

lemma strip_sublist: "\<exists>pre post. s = pre @ strip db s @ post"
proof -
  let ?P = "isspace db"
  let ?a = "dropWhile ?P s"
  have "s = takeWhile ?P s @ ?a" by simp
  moreover have "rev ?a = takeWhile ?P (rev ?a) @ dropWhile ?P (rev ?a)" by simp
  then have "?a = rev (dropWhile ?P (rev ?a)) @ rev (takeWhile ?P (rev ?a))"
    by (metis rev_append rev_rev_ident)
  ultimately have "s = takeWhile ?P s @ strip db s @ rev (takeWhile ?P (rev ?a))"
    by (simp add: strip_def)
  then show ?thesis by blast
qed

lemma ws_pair_free_Cons:
  "ws_pair_free db (c # r) = ((r = [] \<or> \<not> (isspace db c \<and> isspace db (hd r))) \<and> ws_pair_free db r)"
  by (cases r) auto

lemma ws_pair_free_append:
  "ws_pair_free db (xs @ ys) \<Longrightarrow> ws_pair_free db xs \<and> ws_pair_free db ys"
proof (induction xs)
  case Nil
  then show ?case by simp
next
  case (Cons x xs)
  then show ?case by (cases xs) (auto simp: ws_pair_free_Cons)
qed

lemma ws_pair_free_strip:
  assumes "ws_pair_free db s"
  shows "ws_pair_free db (strip db s)"
proof -
  obtain pre post where "s = pre @ strip db s @ post"
    using strip_sublist by blast
  with assms have "ws_pair_free db (pre @ strip db s @ post)" by simp
  then have "ws_pair_free db (strip db s @ post)" by (blast dest: ws_pair_free_append)
  then show ?thesis by (blast dest: ws_pair_free_append)
qed

lemma collapse_list_head:
  "s \<noteq> [] \<Longrightarrow> \<not> isspace db (hd s) \<Longrightarrow> collapse_list db s \<noteq> [] \<and> hd (collapse_list db s) = hd s"
  by (cases "(db, s)" rule: collapse_list.cases) auto

lemma collapse_list_nonempty: "s \<noteq> [] \<Longrightarrow> collapse_list db s \<noteq> []"
  by (cases "(db, s)" rule: collapse_list.cases) auto

lemma collapse_list_pair_free: "ws_pair_free db (collapse_list db s)"
proof (induction db s rule: collapse_list.induct)
  case (1 db)
  show ?case by simp
next
  case (2 db c)
  show ?case by simp
next
  case (3 db c d cs)
  show ?case
  proof (cases "isspace db c \<and> isspace db d")
    case True
    let ?r = "dropWhile (isspace db) cs"
    have "?r = [] \<or> \<not> isspace db (hd (collapse_list db ?r))"
    proof (cases "?r = []")
      case False
      then have "\<not> isspace db (hd ?r)" by (rule hd_dropWhile)
      with False show ?thesis by (simp add: collapse_list_head)
    qed simp
    moreover have "collapse_list db ?r = [] \<longleftrightarrow> ?r = []"
      by (metis collapse_list.simps(1) collapse_list_nonempty)
    ultimately show ?thesis using True 3 by (auto simp: ws_pair_free_Cons)
  next
    case False
    then have ih: "ws_pair_free db (collapse_list db (d # cs))" using 3 by simp
    have "\<not> (isspace db c \<and> isspace db (hd (collapse_list db (d # cs))))"
    proof (cases "isspace db c")
      case True
      with False have "\<not> isspace db d" by simp
      then show ?thesis using collapse_list_head [of "d # cs" db] by simp
    qed simp
    with False ih show ?thesis by (auto simp: ws_pair_free_Cons)
  qed
qed

lemma collapse_list_id: "ws_pair_free db s \<Longrightarrow> collapse_list db s = s"
  by (induction db s rule: collapse_list.induct) auto

lemma space_atom: "atom_ok db (In [ClsSpace]) = isspace db"
  by (rule ext) simp

lemma run_ws: "run_length db (In [ClsSpace]) s k = length (takeWhile (isspace db) (drop k s))"
  by (simp add: run_length_def space_atom)

lemma match_ws_run:
  "match_at db ws_run_pat s k =
     (if 2 \<le> run_length db (In [ClsSpace]) s k
      then Some (Match k (k + run_length db (In [ClsSpace]) s k) Map.empty) else None)"
  by (simp add: match_at_def ws_run_pat_def rep_ends_def Let_def rev_map)

lemma collapse_scan:
  assumes "resume \<le> length s" and "k \<le> Suc (length s)"
  shows "sub_scan db ws_run_pat [32] s resume [k..<Suc (length s)]
     = collapse_list db (drop (max k resume) s)"
  using assms
proof (induction "Suc (length s) - k" arbitrary: k resume)
  case 0
  then have "k = Suc (length s)" by simp
  then show ?case by simp
next
  case (Suc n)
  let ?P = "isspace db"
  from Suc.hyps(2) have k: "k \<le> length s" by simp
  then have upt: "[k..<Suc (length s)] = k # [Suc k..<Suc (length s)]"
    by (simp add: upt_conv_Cons)
  from Suc.hyps(2) have n: "n = Suc (length s) - Suc k" by simp
  show ?case
  proof (cases "k < resume")
    case True
    have "sub_scan db ws_run_pat [32] s resume [Suc k..<Suc (length s)]
        = collapse_list db (drop (max (Suc k) resume) s)"
      using Suc.hyps(1) [OF n Suc.prems(1)] k by simp
    moreover from True have "max (Suc k) resume = max k resume" by simp
    ultimately show ?thesis using True by (simp add: upt del: upt_Suc)
  next
    case False
    then have mx: "max k resume = k" by simp
    let ?r = "run_length db (In [ClsSpace]) s k"
    show ?thesis
    proof (cases "2 \<le> ?r")
      case True
      have le: "k + ?r \<le> length s"
        using run_length_le [of k db "In [ClsSpace]" s] k by simp
      have rest: "sub_scan db ws_run_pat [32] s (k + ?r) [Suc k..<Suc (length s)]
          = collapse_list db (drop (max (Suc k) (k + ?r)) s)"
        using Suc.hyps(1) [OF n le] k by simp
      from True have mx': "max (Suc k) (k + ?r) = k + ?r" by simp
      from True le have k2: "Suc (Suc k) \<le> length s" by simp
      then have d: "drop k s = s ! k # s ! Suc k # drop (Suc (Suc k)) s"
        by (simp add: Cons_nth_drop_Suc)
      from True have two: "2 \<le> length (takeWhile ?P (s ! k # s ! Suc k # drop (Suc (Suc k)) s))"
        by (simp add: run_ws d)
      then have c: "?P (s ! k)" and c': "?P (s ! Suc k)"
        by (auto split: if_splits)
      then have "?r = Suc (Suc (length (takeWhile ?P (drop (Suc (Suc k)) s))))"
        by (simp add: run_ws d)
      then have "drop (k + ?r) s = dropWhile ?P (drop (Suc (Suc k)) s)"
        by (simp add: dropWhile_eq_drop add.commute)
      then have "collapse_list db (drop k s) = 32 # collapse_list db (drop (k + ?r) s)"
        using c c' by (simp add: d)
      then show ?thesis
        using True False rest by (simp add: upt match_ws_run mx mx' del: upt_Suc)
    next
      case False
      note short = this
      have rest: "sub_scan db ws_run_pat [32] s resume [Suc k..<Suc (length s)]
          = collapse_list db (drop (max (Suc k) resume) s)"
        using Suc.hyps(1) [OF n Suc.prems(1)] k by simp
      from \<open>\<not> k < resume\<close> have mx': "max (Suc k) resume = Suc k" by simp
      show ?thesis
      proof (cases "k < length s")
        case True
        then have d: "drop k s = s ! k # drop (Suc k) s"
          by (simp add: Cons_nth_drop_Suc)
        have "collapse_list db (s ! k # drop (Suc k) s) = s ! k # collapse_list db (drop (Suc k) s)"
        proof (cases "drop (Suc k) s")
          case Nil
          then show ?thesis by simp
        next
          case (Cons e es)
          with short have "\<not> (?P (s ! k) \<and> ?P e)"
            by (auto simp: run_ws d)
          with Cons show ?thesis by auto
        qed
        then show ?thesis
          using True short \<open>\<not> k < resume\<close> rest by (simp add: upt match_ws_run mx mx' d del: upt_Suc)
      next
        case False
        with k have "k = length s" by simp
        then show ?thesis
          using short \<open>\<not> k < resume\<close> by (simp add: match_ws_run)
      qed
    qed
  qed
qed

lemma collapse_ws_list: "collapse_ws db s = collapse_list db s"
  using collapse_scan [of 0 s 0 db] by (simp add: collapse_ws_def re_sub_def str_def)

lemma ucd_spaces_ascii: "ucd_spaces ascii_ucd"
  by (auto simp: ucd_spaces_def is_ascii_letter_def ascii_ucd_def ascii_isspace_def)

lemma clean_name_shape:
  "clean_name db x = UNKNOWN
   \<or> (\<exists>w. clean_name db x = strip db (collapse_ws db w) \<and> clean_name db x \<noteq> [])"
  by (auto simp: clean_name_def Let_def)

lemma unknown_settled:
  assumes "ucd_spaces db"
  shows "trimmed db UNKNOWN \<and> ws_pair_free db UNKNOWN \<and> UNKNOWN \<noteq> []"
proof -
  from assms have "\<And>c. is_ascii_letter c \<Longrightarrow> \<not> isspace db c"
    by (simp add: ucd_spaces_def)
  then have "\<not> isspace db 85" "\<not> isspace db 110" "\<not> isspace db 107" "\<not> isspace db 111"
    "\<not> isspace db 119"
    by (simp_all add: is_ascii_letter_def)
  then show ?thesis
    by (simp add: UNKNOWN_def str_def trimmed_def)
qed

lemma clean_name_settled:
  assumes "ucd_spaces db"
  shows "trimmed db (clean_name db x) \<and> ws_pair_free db (clean_name db x) \<and> clean_name db x \<noteq> []"
  using clean_name_shape [of db x]
proof
  assume "clean_name db x = UNKNOWN"
  then show ?thesis using unknown_settled [OF assms] by simp
next
  assume "\<exists>w. clean_name db x = strip db (collapse_ws db w) \<and> clean_name db x \<noteq> []"
  then obtain w where w: "clean_name db x = strip db (collapse_ws db w)" and ne: "clean_name db x \<noteq> []"
    by blast
  have "ws_pair_free db (strip db (collapse_list db w))"
    by (rule ws_pair_free_strip) (rule collapse_list_pair_free)
  then show ?thesis using w ne by (simp add: strip_trimmed collapse_ws_list)
qed

text \<open>
  C5, as stated, fails: \<open>clean_name\<close> strips one final comma per application, so on
  \<open>a,,\<close> the first application gives \<open>a,\<close> and the second gives \<open>a\<close>.
\<close>

theorem clean_name_idempotent_counterexample:
  "clean_name ascii_ucd (str ''a,,'') = str ''a,''
   \<and> clean_name ascii_ucd (clean_name ascii_ucd (str ''a,,'')) = str ''a''
   \<and> clean_name ascii_ucd (clean_name ascii_ucd (str ''a,,'')) \<noteq> clean_name ascii_ucd (str ''a,,'')"
  by (simp add: eval_defs cong: eval_congs)

text \<open>
  C5, amended. A second application of \<open>clean_name\<close> changes nothing whenever the result
  of the first is left unchanged by the two removals, that is, it does not end in a
  further comma or semicolon and holds no honorific token: the trimming, the white
  space collapsing and the replacement of the empty string by \<open>Unknown\<close> are idempotent.
\<close>

theorem clean_name_idempotent_when_settled:
  assumes "ucd_spaces db"
    and "strip_trailing_sep db (clean_name db x) = clean_name db x"
    and "remove_honorifics db (clean_name db x) = clean_name db x"
  shows "clean_name db (clean_name db x) = clean_name db x"
proof -
  let ?y = "clean_name db x"
  from clean_name_settled [OF assms(1), of x]
  have t: "trimmed db ?y" and p: "ws_pair_free db ?y" and ne: "?y \<noteq> []"
    by simp_all
  from t have s: "strip db ?y = ?y" by (rule strip_id)
  from p have c: "collapse_ws db ?y = ?y" by (simp add: collapse_ws_list collapse_list_id)
  have "clean_name db ?y =
      (let s1 = strip_trailing_sep db (strip db ?y);
           s2 = remove_honorifics db s1;
           s3 = strip db (collapse_ws db s2)
       in if s3 = [] then UNKNOWN else s3)"
    by (rule clean_name_def)
  also have "\<dots> = ?y"
    unfolding Let_def s assms(2) assms(3) c using ne by simp
  finally show ?thesis .
qed

theorem clean_name_idempotent_when_settled_witness:
  "ucd_spaces ascii_ucd
   \<and> clean_name ascii_ucd (str ''Dr. John  Smith,'') = str ''John Smith''
   \<and> strip_trailing_sep ascii_ucd (str ''John Smith'') = str ''John Smith''
   \<and> remove_honorifics ascii_ucd (str ''John Smith'') = str ''John Smith''
   \<and> clean_name ascii_ucd (clean_name ascii_ucd (str ''Dr. John  Smith,''))
     = clean_name ascii_ucd (str ''Dr. John  Smith,'')"
proof -
  let ?x = "str ''Dr. John  Smith,''"
  have y: "clean_name ascii_ucd ?x = str ''John Smith''"
    by (simp add: eval_defs cong: eval_congs)
  have a: "strip_trailing_sep ascii_ucd (str ''John Smith'') = str ''John Smith''"
    by (simp add: eval_defs cong: eval_congs)
  have b: "remove_honorifics ascii_ucd (str ''John Smith'') = str ''John Smith''"
    by (simp add: eval_defs cong: eval_congs)
  from a y have a': "strip_trailing_sep ascii_ucd (clean_name ascii_ucd ?x) = clean_name ascii_ucd ?x"
    by simp
  from b y have b': "remove_honorifics ascii_ucd (clean_name ascii_ucd ?x) = clean_name ascii_ucd ?x"
    by simp
  from clean_name_idempotent_when_settled [OF ucd_spaces_ascii a' b']
  show ?thesis using y a b by (simp add: ucd_spaces_ascii)
qed

end
